theory Spec2Isabelle
  imports Main
begin

section \<open>Data model\<close>

text \<open>
  The format tree of \<^verbatim>\<open>onlinejudge_template.types\<close>: the generator dispatches on
  the four class names \<^verbatim>\<open>ItemNode\<close>, \<^verbatim>\<open>NewlineNode\<close>, \<^verbatim>\<open>SequenceNode\<close> and
  \<^verbatim>\<open>LoopNode\<close> and reads the attributes \<^verbatim>\<open>name\<close>, \<^verbatim>\<open>indices\<close>, \<^verbatim>\<open>items\<close>,
  \<^verbatim>\<open>size\<close> and \<^verbatim>\<open>body\<close>.
\<close>

datatype node =
    ItemNode string "string list"
  | NewlineNode
  | SequenceNode "node list"
  | LoopNode string string node

text \<open>Exceptions are values; a function that can raise returns \<open>error + 'a\<close>.\<close>

datatype error =
    AssertionError
  | TypeError
  | KeyError
  | NotImplementedError
  | AnalyzerError
  | OtherError string

text \<open>
  The style dictionary \<^verbatim>\<open>data['config']\<close> is a \<^verbatim>\<open>Dict[str, Any]\<close>. The values
  the emitters distinguish are \<^verbatim>\<open>None\<close>, strings and callables; booleans and
  integers stand for the values that are none of these. A callable is applied to
  its list of string arguments and either returns text or raises.
\<close>

datatype pyval =
    PyNone
  | PyBool bool
  | PyInt int
  | PyStr string
  | PyCallable "string list \<Rightarrow> error + string"

type_synonym config = "string \<rightharpoonup> pyval"

record data =
  input :: node
  config :: config

text \<open>\<^verbatim>\<open>d.get(k)\<close> and \<^verbatim>\<open>d.get(k, default)\<close>.\<close>

definition dict_get :: "config \<Rightarrow> string \<Rightarrow> pyval" where
  "dict_get c k = (case c k of None \<Rightarrow> PyNone | Some v \<Rightarrow> v)"

definition dict_get_default :: "config \<Rightarrow> string \<Rightarrow> pyval \<Rightarrow> pyval" where
  "dict_get_default c k d = (case c k of None \<Rightarrow> d | Some v \<Rightarrow> v)"

text \<open>Python truthiness of a value, as \<^verbatim>\<open>if\<close> tests it.\<close>

fun truthy :: "pyval \<Rightarrow> bool" where
  "truthy PyNone = False"
| "truthy (PyBool b) = b"
| "truthy (PyInt i) = (i \<noteq> 0)"
| "truthy (PyStr s) = (s \<noteq> [])"
| "truthy (PyCallable f) = True"

section \<open>String helpers\<close>

definition startswith :: "string \<Rightarrow> string \<Rightarrow> bool" where
  "startswith s p = (take (length p) s = p)"

definition endswith :: "string \<Rightarrow> string \<Rightarrow> bool" where
  "endswith s p = (length p \<le> length s \<and> drop (length s - length p) s = p)"

text \<open>\<^verbatim>\<open>s * n\<close>: the empty string when \<open>n \<le> 0\<close>.\<close>

definition str_mul :: "string \<Rightarrow> int \<Rightarrow> string" where
  "str_mul s n = concat (replicate (nat n) s)"

text \<open>\<^verbatim>\<open>sep.join(xs)\<close>.\<close>

fun str_join :: "string \<Rightarrow> string list \<Rightarrow> string" where
  "str_join sep [] = []"
| "str_join sep [x] = x"
| "str_join sep (x # y # ys) = x @ sep @ str_join sep (y # ys)"

section \<open>The indenter\<close>

text \<open>
  The loop of \<^verbatim>\<open>_join_with_indent\<close>: one pass over the lines with the counter
  \<open>nest\<close> and the buffer \<open>buf\<close>. \<^verbatim>\<open>indent * nest + line\<close> raises
  \<^verbatim>\<open>TypeError\<close> unless \<open>indent\<close> is a string.
\<close>

fun indent_loop :: "pyval \<Rightarrow> int \<Rightarrow> string list \<Rightarrow> string list \<Rightarrow> error + (int \<times> string list)" where
  "indent_loop ind nest buf [] = Inr (nest, buf)"
| "indent_loop ind nest buf (line # lines) =
     (let nest1 = (if startswith line ''}'' then nest - 1 else nest) in
      case ind of
        PyStr s \<Rightarrow>
          indent_loop ind (if endswith line ''{'' then nest1 + 1 else nest1)
            (buf @ [str_mul s nest1 @ line]) lines
      | _ \<Rightarrow> Inl TypeError)"

text \<open>
  A generator is consumed lazily: \<open>(lines, end)\<close> holds the lines yielded and how
  the generator ended, \<open>None\<close> when exhausted and \<open>Some e\<close> when it raised \<open>e\<close>
  after yielding them. A list is a generator that ends normally.

  \<^verbatim>\<open>_join_with_indent(lines, nest=.., data=..)\<close>: the parameter \<open>nest\<close> is
  overwritten by \<^verbatim>\<open>nest = 1\<close> before the loop.
\<close>

type_synonym gen = "string list \<times> error option"

definition join_with_indent :: "gen \<Rightarrow> int \<Rightarrow> data \<Rightarrow> error + string" where
  "join_with_indent lines nest d =
     (let indent = dict_get_default (config d) ''indent'' (PyStr ''    '');
          nest = 1 in
      case indent_loop indent nest [] (fst lines) of
        Inl e \<Rightarrow> Inl e
      | Inr (n, buf) \<Rightarrow>
          (case snd lines of
             Some e \<Rightarrow> Inl e
           | None \<Rightarrow> Inr (str_join [CHR 0x0A] buf)))"

section \<open>Statement emitters\<close>

definition get_std :: "data \<Rightarrow> string" where
  "get_std d =
     (if truthy (dict_get_default (config d) ''using_namespace_std'' (PyBool True))
      then '''' else ''std::'')"

definition declare_loop :: "string \<Rightarrow> string \<Rightarrow> data \<Rightarrow> error + string" where
  "declare_loop var sz d =
     (case dict_get (config d) ''rep_macro'' of
        PyNone \<Rightarrow>
          Inr (''for (int '' @ var @ '' = 0; '' @ var @ '' < '' @ sz @ ''; ++'' @ var @ '')'')
      | PyStr rep \<Rightarrow> Inr (rep @ '' ('' @ var @ '', '' @ sz @ '')'')
      | PyCallable rep \<Rightarrow> rep [var, sz]
      | _ \<Rightarrow> Inl AssertionError)"

definition scanf_stmt :: "string \<Rightarrow> string" where
  \<open>scanf_stmt var = ''scanf("%d", &'' @ var @ '');''\<close>

definition printf_stmt :: "string \<Rightarrow> string" where
  \<open>printf_stmt var = ''printf("%d'' @ [CHR 0x5C] @ ''n", &'' @ var @ '');''\<close>

definition read_int :: "string \<Rightarrow> data \<Rightarrow> error + string" where
  "read_int var d =
     (case dict_get (config d) ''scanner'' of
        PyNone \<Rightarrow> Inr (scanf_stmt var)
      | PyStr s \<Rightarrow>
          (if s = ''scanf'' then Inr (scanf_stmt var)
           else if s = ''cin'' \<or> s = ''std::cin'' then Inr (get_std d @ ''cin >> '' @ var @ '';'')
           else Inl AssertionError)
      | PyCallable scanner \<Rightarrow> scanner [var]
      | _ \<Rightarrow> Inl AssertionError)"

definition write_int :: "string \<Rightarrow> data \<Rightarrow> error + string" where
  "write_int var d =
     (case dict_get (config d) ''printer'' of
        PyNone \<Rightarrow> Inr (printf_stmt var)
      | PyStr s \<Rightarrow>
          (if s = ''scanf'' then Inr (printf_stmt var)
           else if s = ''cout'' \<or> s = ''std::cout''
             then Inr (get_std d @ ''cout << '' @ var @ '' << '' @ get_std d @ ''endl;'')
           else Inl AssertionError)
      | PyCallable printer \<Rightarrow> printer [var]
      | _ \<Rightarrow> Inl AssertionError)"

text \<open>
  The loop of \<^verbatim>\<open>_declare_variable\<close> over \<^verbatim>\<open>reversed(dims)\<close>: the
  constructor is built from the type before the type is wrapped.
\<close>

fun declare_variable_loop :: "string list \<Rightarrow> string \<Rightarrow> string \<Rightarrow> data \<Rightarrow> string \<times> string" where
  "declare_variable_loop [] type ctor d = (type, ctor)"
| "declare_variable_loop (dim # rest) type ctor d =
     declare_variable_loop rest
       (get_std d @ ''vector<'' @ type @ ''>'')
       (''('' @ dim @ '', '' @ type @ ''('' @ ctor @ ''))'') d"

definition declare_variable :: "string \<Rightarrow> string list \<Rightarrow> data \<Rightarrow> string" where
  "declare_variable name dims d =
     (case declare_variable_loop (rev dims) ''int'' '''' d of
        (type, ctor) \<Rightarrow> type @ '' '' @ name @ ctor @ '';'')"

section \<open>Dimension inference\<close>

text \<open>
  Modelled from the spec: \<^verbatim>\<open>common.list_used_items\<close> is imported by the generator
  but its module is not part of the sources. The spec (4.1) has it traverse the tree
  accumulating the sizes of the enclosing loops, outer to inner, and record them for
  a variable at the first item that names it; later occurrences change nothing. The
  result is a dictionary in insertion order, here an association list.
\<close>

fun list_used_items_dfs :: "node \<Rightarrow> string list \<Rightarrow> (string \<times> string list) list \<Rightarrow> (string \<times> string list) list"
  and list_used_items_seq :: "node list \<Rightarrow> string list \<Rightarrow> (string \<times> string list) list \<Rightarrow> (string \<times> string list) list"
where
  "list_used_items_dfs (ItemNode name indices) sizes acc =
     (if map_of acc name = None then acc @ [(name, sizes)] else acc)"
| "list_used_items_dfs NewlineNode sizes acc = acc"
| "list_used_items_dfs (SequenceNode items) sizes acc = list_used_items_seq items sizes acc"
| "list_used_items_dfs (LoopNode name sz body) sizes acc =
     list_used_items_dfs body (sizes @ [sz]) acc"
| "list_used_items_seq [] sizes acc = acc"
| "list_used_items_seq (item # items) sizes acc =
     list_used_items_seq items sizes (list_used_items_dfs item sizes acc)"

definition list_used_items :: "node \<Rightarrow> (string \<times> string list) list" where
  "list_used_items t = list_used_items_dfs t [] []"

section \<open>The input-reading traversal\<close>

text \<open>
  \<^verbatim>\<open>_read_input_dfs\<close> is a generator that mutates the set \<open>declared\<close>. The model
  returns the set as the traversal leaves it, the lines yielded, and the exception
  that ended the traversal, if one did. \<open>dims[name]\<close> raises \<^verbatim>\<open>KeyError\<close> for
  a missing key, after the name has been added to \<open>declared\<close>. The read statement
  of an item is the literal of line 80 of the source.
\<close>

text \<open>The loop of lines 77 to 79: \<^verbatim>\<open>var = f"{var}[{index}]"\<close> for each index.\<close>

definition indexed_path :: "string \<Rightarrow> string list \<Rightarrow> string" where
  "indexed_path name indices = foldl (\<lambda>var index. var @ ''['' @ index @ '']'') name indices"

fun read_input_dfs :: "node \<Rightarrow> string set \<Rightarrow> (string \<times> string list) list \<Rightarrow> data \<Rightarrow> string set \<times> gen"
  and read_input_dfs_items :: "node list \<Rightarrow> string set \<Rightarrow> (string \<times> string list) list \<Rightarrow> data \<Rightarrow> string set \<times> gen"
where
  "read_input_dfs (ItemNode name indices) declared dims d =
     (let var = indexed_path name indices in
      if name \<notin> declared then
        (case map_of dims name of
           None \<Rightarrow> (insert name declared, ([], Some KeyError))
         | Some ds \<Rightarrow>
             (insert name declared, ([declare_variable name ds d, scanf_stmt var], None)))
      else (declared, ([scanf_stmt var], None)))"
| "read_input_dfs NewlineNode declared dims d = (declared, ([], None))"
| "read_input_dfs (SequenceNode items) declared dims d =
     read_input_dfs_items items declared dims d"
| "read_input_dfs (LoopNode name sz body) declared dims d =
     (case declare_loop name sz d of
        Inl e \<Rightarrow> (declared, ([], Some e))
      | Inr header \<Rightarrow>
          (case read_input_dfs body declared dims d of
             (declared', (ls, None)) \<Rightarrow>
               (declared', ((header @ '' {'') # ls @ [''}''], None))
           | (declared', (ls, Some e)) \<Rightarrow>
               (declared', ((header @ '' {'') # ls, Some e))))"
| "read_input_dfs_items [] declared dims d = (declared, ([], None))"
| "read_input_dfs_items (item # items) declared dims d =
     (case read_input_dfs item declared dims d of
        (declared', (ls, Some e)) \<Rightarrow> (declared', (ls, Some e))
      | (declared', (ls, None)) \<Rightarrow>
          (case read_input_dfs_items items declared' dims d of
             (declared'', (ls', r)) \<Rightarrow> (declared'', (ls @ ls', r))))"

definition read_input :: "data \<Rightarrow> int \<Rightarrow> error + string" where
  "read_input d nest =
     (let dims = list_used_items (input d);
          lines = snd (read_input_dfs (input d) {} dims d)
      in join_with_indent lines nest d)"

definition write_output :: "data \<Rightarrow> int \<Rightarrow> error + string" where
  "write_output d nest =
     (case write_int ''ans'' d of
        Inl e \<Rightarrow> Inl e
      | Inr line \<Rightarrow> join_with_indent ([line], None) nest d)"

section \<open>The signature builder\<close>

text \<open>The loop of \<^verbatim>\<open>arguments_types\<close> over \<^verbatim>\<open>reversed(dims)\<close>.\<close>

fun arguments_types_loop :: "string list \<Rightarrow> string \<Rightarrow> data \<Rightarrow> string" where
  "arguments_types_loop [] type d = type"
| "arguments_types_loop (dim # rest) type d =
     arguments_types_loop rest (get_std d @ ''vector<'' @ type @ ''>'') d"

definition arguments_types_decl :: "string \<Rightarrow> string list \<Rightarrow> data \<Rightarrow> string" where
  "arguments_types_decl name dims d =
     (let type = arguments_types_loop (rev dims) ''int'' d;
          type = (if dims \<noteq> [] then ''const '' @ type @ '' &'' else type)
      in type @ '' '' @ name)"

definition arguments_types :: "data \<Rightarrow> string" where
  "arguments_types d =
     str_join '', ''
       (map (\<lambda>(name, dims). arguments_types_decl name dims d) (list_used_items (input d)))"

definition arguments :: "data \<Rightarrow> string" where
  "arguments d = str_join '', '' (map fst (list_used_items (input d)))"

definition return_type :: "data \<Rightarrow> string" where
  "return_type d = ''auto''"

section \<open>The orchestration loop\<close>

text \<open>
  \<^verbatim>\<open>generator.run(input_format, *, template_file)\<close> takes one positional argument;
  a call with any other number of positional arguments raises \<^verbatim>\<open>TypeError\<close>
  before the body runs. The template lookup and rendering (mako) are outside the
  sources: \<open>lookup\<close> stands for them, from the template name and the data
  dictionary (the input node, which may be \<^verbatim>\<open>None\<close>, and the empty config) to
  the rendered bytes or an exception.
\<close>

type_synonym renderer = "string \<Rightarrow> node option \<times> config \<Rightarrow> error + string"

definition run :: "node option list \<Rightarrow> string \<Rightarrow> renderer \<Rightarrow> error + string" where
  "run args template_file lookup =
     (case args of
        [input_format] \<Rightarrow> lookup template_file (input_format, Map.empty)
      | _ \<Rightarrow> Inl TypeError)"

text \<open>
  What \<^verbatim>\<open>prepare_problem\<close> does to the outside: the files it writes and the
  messages it logs at level error.
\<close>

datatype log_entry =
    InputAnalyzerFailed error
  | OutputAnalyzerFailed error
  | GeneratorFailed error
  | FileAlreadyExists string

record world =
  files :: "string \<rightharpoonup> string"
  log :: "log_entry list"

text \<open>
  One \<^verbatim>\<open>try\<close> block of the analysis: \<^verbatim>\<open>AnalyzerError\<close> and
  \<^verbatim>\<open>NotImplementedError\<close> are logged and leave the node \<^verbatim>\<open>None\<close>; any other
  exception propagates.
\<close>

definition analyze :: "(error \<Rightarrow> log_entry) \<Rightarrow> error + node \<Rightarrow> world \<Rightarrow> error + (node option \<times> world)" where
  "analyze entry result w =
     (case result of
        Inr n \<Rightarrow> Inr (Some n, w)
      | Inl AnalyzerError \<Rightarrow> Inr (None, w\<lparr>log := log w @ [entry AnalyzerError]\<rparr>)
      | Inl NotImplementedError \<Rightarrow> Inr (None, w\<lparr>log := log w @ [entry NotImplementedError]\<rparr>)
      | Inl e \<Rightarrow> Inl e)"

text \<open>
  The loop of \<^verbatim>\<open>prepare_problem\<close> over \<^verbatim>\<open>table.items()\<close>, lines 84 to 123.
  The analyzers are outside the sources; \<open>input_result\<close> and \<open>output_result\<close>
  are what the two analyses of the downloaded page give. The result is the world
  as the loop leaves it and the exception that escaped it, if one did.
\<close>

fun prepare_problem_loop ::
  "(string \<times> string) list \<Rightarrow> error + node \<Rightarrow> error + node \<Rightarrow> renderer \<Rightarrow> world \<Rightarrow> world \<times> error option" where
  "prepare_problem_loop [] input_result output_result lookup w = (w, None)"
| "prepare_problem_loop ((dest, template) # rest) input_result output_result lookup w =
     (case analyze InputAnalyzerFailed input_result w of
        Inl e \<Rightarrow> (w, Some e)
      | Inr (input_node, w1) \<Rightarrow>
          (case analyze OutputAnalyzerFailed output_result w1 of
             Inl e \<Rightarrow> (w1, Some e)
           | Inr (output_node, w2) \<Rightarrow>
               (case run [input_node, output_node] template lookup of
                  Inl NotImplementedError \<Rightarrow>
                    prepare_problem_loop rest input_result output_result lookup
                      (w2\<lparr>log := log w2 @ [GeneratorFailed NotImplementedError]\<rparr>)
                | Inl e \<Rightarrow> (w2, Some e)
                | Inr code \<Rightarrow>
                    prepare_problem_loop rest input_result output_result lookup
                      (if dest \<in> dom (files w2)
                       then w2\<lparr>log := log w2 @ [FileAlreadyExists dest]\<rparr>
                       else w2\<lparr>files := (files w2)(dest \<mapsto> code)\<rparr>))))"

section \<open>Notions used to state the properties\<close>

text \<open>
  The container type nested \<open>n\<close> levels deep over the scalar type, and the
  constructor arguments of a declaration with the sizes \<open>dims\<close>, outer to inner;
  \<open>p\<close> is the namespace qualifier in front of each container name.
\<close>

fun vector_type :: "string \<Rightarrow> nat \<Rightarrow> string" where
  "vector_type p 0 = ''int''"
| "vector_type p (Suc n) = p @ ''vector<'' @ vector_type p n @ ''>''"

fun vector_ctor :: "string \<Rightarrow> string list \<Rightarrow> string" where
  "vector_ctor p [] = []"
| "vector_ctor p (dim # rest) =
     ''('' @ dim @ '', '' @ vector_type p (length rest) @ ''('' @ vector_ctor p rest @ ''))''"

text \<open>The names of the items of a tree, in traversal order, with repetitions.\<close>

fun item_names :: "node \<Rightarrow> string list" where
  "item_names (ItemNode name indices) = [name]"
| "item_names NewlineNode = []"
| "item_names (SequenceNode items) = concat (map item_names items)"
| "item_names (LoopNode name sz body) = item_names body"

text \<open>
  The emission trace of the traversal: which \<^verbatim>\<open>yield\<close> statement of
  \<^verbatim>\<open>_read_input_dfs\<close> produces each line (the declaration of line 76, the read
  of line 80, the loop header of line 87, the closing line of line 89), in the
  order of the traversal and with the same test on \<open>declared\<close>. \<open>render\<close> gives
  the text of a yield.
\<close>

datatype event =
    Declare string
  | Read string "string list"
  | Open string string
  | Close

fun emission_trace :: "node \<Rightarrow> string set \<Rightarrow> string set \<times> event list"
  and emission_trace_items :: "node list \<Rightarrow> string set \<Rightarrow> string set \<times> event list"
where
  "emission_trace (ItemNode name indices) declared =
     (if name \<notin> declared then (insert name declared, [Declare name, Read name indices])
      else (declared, [Read name indices]))"
| "emission_trace NewlineNode declared = (declared, [])"
| "emission_trace (SequenceNode items) declared = emission_trace_items items declared"
| "emission_trace (LoopNode name sz body) declared =
     (case emission_trace body declared of
        (declared', evs) \<Rightarrow> (declared', Open name sz # evs @ [Close]))"
| "emission_trace_items [] declared = (declared, [])"
| "emission_trace_items (item # items) declared =
     (case emission_trace item declared of
        (declared', evs) \<Rightarrow>
          (case emission_trace_items items declared' of
             (declared'', evs') \<Rightarrow> (declared'', evs @ evs')))"

fun render :: "(string \<times> string list) list \<Rightarrow> data \<Rightarrow> event \<Rightarrow> error + string" where
  "render dims d (Declare name) =
     (case map_of dims name of
        None \<Rightarrow> Inl KeyError
      | Some ds \<Rightarrow> Inr (declare_variable name ds d))"
| "render dims d (Read name indices) = Inr (scanf_stmt (indexed_path name indices))"
| "render dims d (Open name sz) =
     (case declare_loop name sz d of Inl e \<Rightarrow> Inl e | Inr header \<Rightarrow> Inr (header @ '' {''))"
| "render dims d Close = Inr ''}''"

text \<open>
  The nest counter of \<open>indent_loop\<close> on its own: its value after one line, after
  a sequence of lines, and whether it stays at or above \<open>lo\<close> during the pass
  (before each line, at the moment the line is prefixed, and at the end).
\<close>

definition nest_step :: "int \<Rightarrow> string \<Rightarrow> int" where
  "nest_step nest line =
     (let nest1 = (if startswith line ''}'' then nest - 1 else nest)
      in if endswith line ''{'' then nest1 + 1 else nest1)"

fun nest_after :: "int \<Rightarrow> string list \<Rightarrow> int" where
  "nest_after nest [] = nest"
| "nest_after nest (line # lines) = nest_after (nest_step nest line) lines"

fun nest_never_below :: "int \<Rightarrow> int \<Rightarrow> string list \<Rightarrow> bool" where
  "nest_never_below lo nest [] = (lo \<le> nest)"
| "nest_never_below lo nest (line # lines) =
     (lo \<le> nest \<and> lo \<le> (if startswith line ''}'' then nest - 1 else nest)
      \<and> nest_never_below lo (nest_step nest line) lines)"

text \<open>
  Appending a key to a list of keys unless it is there already: the order in which
  a dictionary comes to hold keys that are first stored one after the other.
\<close>

definition insert_key :: "string \<Rightarrow> string list \<Rightarrow> string list" where
  "insert_key n ks = (if n \<in> set ks then ks else ks @ [n])"

text \<open>
  In a trace, the variable \<open>v\<close> is declared once and at its first item: the
  declaration is followed at once by a read of \<open>v\<close>, no read of \<open>v\<close> comes
  earlier, and no other declaration of \<open>v\<close> occurs.
\<close>

definition first_declared :: "string \<Rightarrow> event list \<Rightarrow> bool" where
  "first_declared v evs \<longleftrightarrow>
     (\<exists>pre i post. evs = pre @ Declare v # Read v i # post \<and>
        Declare v \<notin> set pre \<and> Declare v \<notin> set post \<and> (\<forall>j. Read v j \<notin> set pre))"

text \<open>
  A style whose loop-header text never begins with the closing marker. The default
  counted loop is one; so is a macro name or a hook text that does not begin with it.
\<close>

definition loop_headers_open :: "data \<Rightarrow> bool" where
  "loop_headers_open d = (\<forall>v s h. declare_loop v s d = Inr h \<longrightarrow> \<not> startswith h ''}'')"

section \<open>Lemmas about the emitters\<close>

lemmas indent_eval =
  join_with_indent_def dict_get_default_def startswith_def endswith_def str_mul_def

lemma get_std_cases: "get_std d = [] \<or> get_std d = ''std::''"
  by (simp add: get_std_def)

lemma get_std_bool:
  "get_std (d\<lparr>config := (config d)(''using_namespace_std'' := map_option PyBool ob)\<rparr>) =
     (if ob = Some False then ''std::'' else [])"
  by (cases ob) (auto simp: get_std_def dict_get_default_def)

lemma get_std_upd:
  "k \<noteq> ''using_namespace_std'' \<Longrightarrow>
     get_std (d\<lparr>config := c(k \<mapsto> x)\<rparr>) = get_std (d\<lparr>config := c\<rparr>)"
  by (simp add: get_std_def dict_get_default_def)

lemma declare_variable_loop_snoc:
  "declare_variable_loop (xs @ [dim]) type ctor d =
     (case declare_variable_loop xs type ctor d of
        (t, c) \<Rightarrow> (get_std d @ ''vector<'' @ t @ ''>'', ''('' @ dim @ '', '' @ t @ ''('' @ c @ ''))''))"
  by (induction xs arbitrary: type ctor) simp_all

lemma declare_variable_loop_rev:
  "declare_variable_loop (rev dims) ''int'' [] d =
     (vector_type (get_std d) (length dims), vector_ctor (get_std d) dims)"
  by (induction dims) (simp_all add: declare_variable_loop_snoc)

lemma declare_variable_text:
  "declare_variable name dims d =
     vector_type (get_std d) (length dims) @ '' '' @ name @ vector_ctor (get_std d) dims @ '';''"
  by (simp add: declare_variable_def declare_variable_loop_rev)

lemma arguments_types_loop_snoc:
  "arguments_types_loop (xs @ [dim]) type d =
     get_std d @ ''vector<'' @ arguments_types_loop xs type d @ ''>''"
  by (induction xs arbitrary: type) simp_all

lemma arguments_types_loop_rev:
  "arguments_types_loop (rev dims) ''int'' d = vector_type (get_std d) (length dims)"
  by (induction dims) (simp_all add: arguments_types_loop_snoc)

section \<open>Lemmas about the dimension table\<close>

lemma list_used_items_keys:
  "map fst (list_used_items_dfs t sizes acc) = fold insert_key (item_names t) (map fst acc)"
  "map fst (list_used_items_seq ts sizes acc) =
     fold insert_key (concat (map item_names ts)) (map fst acc)"
  by (induction t sizes acc and ts sizes acc rule: list_used_items_dfs_list_used_items_seq.induct)
     (auto simp: insert_key_def map_of_eq_None_iff)

lemma fold_insert_key_first_occurrence:
  "fold insert_key xs ks = ks @ filter (\<lambda>n. n \<notin> set ks) (rev (remdups (rev xs)))"
  by (induction xs rule: rev_induct) (auto simp: insert_key_def)

lemma list_used_items_order:
  "map fst (list_used_items t) = rev (remdups (rev (item_names t)))"
  by (simp add: list_used_items_def list_used_items_keys fold_insert_key_first_occurrence)

section \<open>Lemmas about the nest counter\<close>

lemma indent_loop_counter:
  "map_sum id fst (indent_loop (PyStr u) n buf ls) = Inr (nest_after n ls)"
  by (induction ls arbitrary: n buf) (simp_all add: nest_step_def Let_def)

lemma nest_after_append: "nest_after n (xs @ ys) = nest_after (nest_after n xs) ys"
  by (induction xs arbitrary: n) simp_all

lemma nest_never_below_append:
  "nest_never_below lo n (xs @ ys) =
     (nest_never_below lo n xs \<and> nest_never_below lo (nest_after n xs) ys)"
proof (induction xs arbitrary: n)
  case Nil
  show ?case by (cases ys) auto
next
  case (Cons x xs)
  then show ?case by auto
qed

lemma nest_never_below_mono:
  "nest_never_below lo n ls \<Longrightarrow> lo' \<le> lo \<Longrightarrow> nest_never_below lo' n ls"
  by (induction ls arbitrary: n) (auto split: if_splits)

lemma nest_never_below_take:
  "nest_never_below lo n ls \<Longrightarrow> lo \<le> nest_after n (take k ls)"
proof (induction ls arbitrary: n k)
  case Nil
  then show ?case by simp
next
  case (Cons l ls)
  then show ?case by (cases k) auto
qed

lemma startswith_Cons [simp]: "startswith (c # s) [c'] = (c = c')"
  by (simp add: startswith_def)

lemma startswith_Nil [simp]: "startswith [] [c'] = False"
  by (simp add: startswith_def)

lemma endswith_snoc [simp]: "endswith (s @ [c]) [c'] = (c = c')"
  by (simp add: endswith_def)

lemma vector_type_not_closing:
  "p = [] \<or> p = ''std::'' \<Longrightarrow> \<not> startswith (vector_type p n @ rest) ''}''"
  by (cases n) auto

lemma starts_declare_variable [simp]: "\<not> startswith (declare_variable name dims d) ''}''"
  unfolding declare_variable_text by (rule vector_type_not_closing) (rule get_std_cases)

lemma starts_scanf_stmt [simp]: "\<not> startswith (scanf_stmt var) ''}''"
  by (simp add: scanf_stmt_def)

lemma starts_open: "\<not> startswith h ''}'' \<Longrightarrow> \<not> startswith (h @ '' {'') ''}''"
  by (cases h) simp_all

lemma nest_step_declare_variable [simp]: "nest_step n (declare_variable name dims d) = n"
proof -
  have "\<not> endswith (declare_variable name dims d) ''{''"
    unfolding declare_variable_text
    using endswith_snoc[of "vector_type (get_std d) (length dims) @ '' '' @ name @ vector_ctor (get_std d) dims"
        "CHR '';''" "CHR ''{''"]
    by simp
  then show ?thesis by (simp add: nest_step_def)
qed

lemma nest_step_scanf_stmt [simp]: "nest_step n (scanf_stmt var) = n"
proof -
  have "\<not> endswith (scanf_stmt var) ''{''"
    using endswith_snoc[of "butlast (scanf_stmt var)" "CHR '';''" "CHR ''{''"]
    by (simp add: scanf_stmt_def butlast_append)
  then show ?thesis by (simp add: nest_step_def)
qed

lemma nest_step_close [simp]: "nest_step n ''}'' = n - 1"
  by (simp add: nest_step_def endswith_def)

lemma nest_step_open:
  "\<not> startswith h ''}'' \<Longrightarrow> nest_step n (h @ '' {'') = n + 1"
  using endswith_snoc[of "h @ '' ''" "CHR ''{''" "CHR ''{''"]
  by (cases h) (simp_all add: nest_step_def)

text \<open>
  The lines of a subtree keep the counter at or above its value before the subtree,
  and bring it back to that value when the traversal of the subtree ends normally.
\<close>

lemma traversal_balance:
  shows "read_input_dfs t declared dims d = (D, ls, r) \<Longrightarrow> loop_headers_open d \<Longrightarrow>
           nest_never_below n n ls \<and> (r = None \<longrightarrow> nest_after n ls = n)"
    and "read_input_dfs_items ts declared dims d = (D, ls, r) \<Longrightarrow> loop_headers_open d \<Longrightarrow>
           nest_never_below n n ls \<and> (r = None \<longrightarrow> nest_after n ls = n)"
proof (induction t declared dims d and ts declared dims d arbitrary: D ls r n and D ls r n
       rule: read_input_dfs_read_input_dfs_items.induct)
  case (1 name indices declared dims d)
  then show ?case by (auto simp: Let_def split: if_splits option.splits)
next
  case (2 declared dims d)
  then show ?case by auto
next
  case (3 items declared dims d)
  then show ?case by auto
next
  case (4 name sz body declared dims d)
  show ?case
  proof (cases "declare_loop name sz d")
    case (Inl e)
    with 4 show ?thesis by auto
  next
    case (Inr h)
    from "4.prems"(2) Inr have h: "\<not> startswith h ''}''"
      by (auto simp: loop_headers_open_def)
    obtain D' ls' r' where body: "read_input_dfs body declared dims d = (D', ls', r')"
      by (cases "read_input_dfs body declared dims d") auto
    from "4.IH"[OF Inr body "4.prems"(2), of "n + 1"]
    have ih: "nest_never_below (n + 1) (n + 1) ls'" "r' = None \<longrightarrow> nest_after (n + 1) ls' = n + 1"
      by auto
    from ih(1) have below: "nest_never_below n (n + 1) ls'"
      by (rule nest_never_below_mono) simp
    show ?thesis
    proof (cases r')
      case None
      with "4.prems" Inr body have ls: "ls = (h @ '' {'') # ls' @ [''}'']" and r: "r = None"
        by auto
      from None ih(2) have after: "nest_after (n + 1) ls' = n + 1" by simp
      show ?thesis
        unfolding ls r using h below after
        by (simp add: nest_step_open starts_open nest_never_below_append nest_after_append)
    next
      case (Some e)
      with "4.prems" Inr body have ls: "ls = (h @ '' {'') # ls'" and r: "r = Some e"
        by auto
      show ?thesis
        unfolding ls r using h below
        by (simp add: nest_step_open starts_open)
    qed
  qed
next
  case (5 declared dims d)
  then show ?case by auto
next
  case (6 item items declared dims d)
  obtain D1 ls1 r1 where item: "read_input_dfs item declared dims d = (D1, ls1, r1)"
    by (cases "read_input_dfs item declared dims d") auto
  from "6.IH"(1)[OF item "6.prems"(2), of n]
  have ih1: "nest_never_below n n ls1" "r1 = None \<longrightarrow> nest_after n ls1 = n" by auto
  show ?case
  proof (cases r1)
    case (Some e)
    with "6.prems" item have "ls = ls1" "r = Some e" by auto
    with ih1 show ?thesis by simp
  next
    case None
    obtain D2 ls2 r2 where rest: "read_input_dfs_items items D1 dims d = (D2, ls2, r2)"
      by (cases "read_input_dfs_items items D1 dims d") auto
    from "6.IH"(2)[OF item[unfolded None, symmetric] refl refl rest "6.prems"(2), of n]
    have ih2: "nest_never_below n n ls2" "r2 = None \<longrightarrow> nest_after n ls2 = n" by auto
    from "6.prems" item None rest have "ls = ls1 @ ls2" "r = r2" by auto
    with ih1 ih2 None show ?thesis
      by (simp add: nest_never_below_append nest_after_append)
  qed
qed

section \<open>Lemmas about the emission trace\<close>

text \<open>
  A traversal that ends normally yields, line by line, the texts of its trace, and
  leaves the set that the trace leaves.
\<close>

lemma traversal_trace:
  "read_input_dfs t declared dims d = (D, ls, None) \<Longrightarrow>
     fst (emission_trace t declared) = D \<and>
     map (render dims d) (snd (emission_trace t declared)) = map Inr ls"
  "read_input_dfs_items ts declared dims d = (D, ls, None) \<Longrightarrow>
     fst (emission_trace_items ts declared) = D \<and>
     map (render dims d) (snd (emission_trace_items ts declared)) = map Inr ls"
proof (induction t declared dims d and ts declared dims d arbitrary: D ls and D ls
       rule: read_input_dfs_read_input_dfs_items.induct)
  case (1 name indices declared dims d)
  then show ?case by (auto simp: Let_def split: if_splits option.splits)
next
  case (2 declared dims d)
  then show ?case by auto
next
  case (3 items declared dims d)
  then show ?case by auto
next
  case (4 name sz body declared dims d)
  then show ?case
    by (auto split: sum.splits prod.splits option.splits)
next
  case (5 declared dims d)
  then show ?case by auto
next
  case (6 item items declared dims d)
  obtain D1 ls1 r1 where item: "read_input_dfs item declared dims d = (D1, ls1, r1)"
    by (cases "read_input_dfs item declared dims d") auto
  with "6.prems" have r1: "r1 = None" by (cases r1) auto
  obtain D2 ls2 r2 where rest: "read_input_dfs_items items D1 dims d = (D2, ls2, r2)"
    by (cases "read_input_dfs_items items D1 dims d") auto
  with "6.prems" item r1 have eqs: "D = D2" "ls = ls1 @ ls2" "r2 = None" by auto
  from "6.IH"(1)[OF item[unfolded r1]]
  have ih1: "fst (emission_trace item declared) = D1"
    "map (render dims d) (snd (emission_trace item declared)) = map Inr ls1" by auto
  from "6.IH"(2)[OF item[unfolded r1, symmetric] refl refl rest[unfolded eqs(3)]]
  have ih2: "fst (emission_trace_items items D1) = D2"
    "map (render dims d) (snd (emission_trace_items items D1)) = map Inr ls2" by auto
  show ?case using ih1 ih2 eqs
    by (auto split: prod.splits)
qed

lemma trace_declared:
  "emission_trace t declared = (D, evs) \<Longrightarrow>
     D = declared \<union> set (item_names t) \<and>
     (\<forall>v. Declare v \<in> set evs \<longrightarrow> v \<notin> declared \<and> v \<in> set (item_names t)) \<and>
     (\<forall>v i. Read v i \<in> set evs \<longrightarrow> v \<in> set (item_names t))"
  "emission_trace_items ts declared = (D, evs) \<Longrightarrow>
     D = declared \<union> set (concat (map item_names ts)) \<and>
     (\<forall>v. Declare v \<in> set evs \<longrightarrow> v \<notin> declared \<and> v \<in> set (concat (map item_names ts))) \<and>
     (\<forall>v i. Read v i \<in> set evs \<longrightarrow> v \<in> set (concat (map item_names ts)))"
proof (induction t declared and ts declared arbitrary: D evs and D evs
       rule: emission_trace_emission_trace_items.induct)
  case (1 name indices declared)
  then show ?case by (auto split: if_splits)
next
  case (2 declared)
  then show ?case by auto
next
  case (3 items declared)
  then show ?case by auto
next
  case (4 name sz body declared)
  obtain D1 e1 where body: "emission_trace body declared = (D1, e1)"
    by (cases "emission_trace body declared") auto
  with "4.prems" have eqs: "D = D1" "evs = Open name sz # e1 @ [Close]" by auto
  from "4.IH"[OF body] show ?case unfolding eqs by simp
next
  case (5 declared)
  then show ?case by auto
next
  case (6 item items declared)
  obtain D1 e1 where item: "emission_trace item declared = (D1, e1)"
    by (cases "emission_trace item declared") auto
  obtain D2 e2 where rest: "emission_trace_items items D1 = (D2, e2)"
    by (cases "emission_trace_items items D1") auto
  from "6.prems" item rest have eqs: "D = D2" "evs = e1 @ e2" by auto
  note ih1 = "6.IH"(1)[OF item]
  note ih2 = "6.IH"(2)[OF item[symmetric] rest]
  show ?case unfolding eqs using ih1 ih2 by auto
qed

lemma first_declared_appendL:
  assumes "first_declared v e1" and "Declare v \<notin> set e2"
  shows "first_declared v (e1 @ e2)"
proof -
  from assms(1) obtain pre i post where
    "e1 = pre @ Declare v # Read v i # post" "Declare v \<notin> set pre" "Declare v \<notin> set post"
    "\<forall>j. Read v j \<notin> set pre"
    unfolding first_declared_def by blast
  with assms(2) have "e1 @ e2 = pre @ Declare v # Read v i # (post @ e2) \<and>
      Declare v \<notin> set pre \<and> Declare v \<notin> set (post @ e2) \<and> (\<forall>j. Read v j \<notin> set pre)"
    by simp
  then show ?thesis unfolding first_declared_def by blast
qed

lemma first_declared_appendR:
  assumes "first_declared v e2" and "Declare v \<notin> set e1" and "\<forall>j. Read v j \<notin> set e1"
  shows "first_declared v (e1 @ e2)"
proof -
  from assms(1) obtain pre i post where
    "e2 = pre @ Declare v # Read v i # post" "Declare v \<notin> set pre" "Declare v \<notin> set post"
    "\<forall>j. Read v j \<notin> set pre"
    unfolding first_declared_def by blast
  with assms(2,3) have "e1 @ e2 = (e1 @ pre) @ Declare v # Read v i # post \<and>
      Declare v \<notin> set (e1 @ pre) \<and> Declare v \<notin> set post \<and> (\<forall>j. Read v j \<notin> set (e1 @ pre))"
    by simp
  then show ?thesis unfolding first_declared_def by blast
qed

lemma first_declared_item: "first_declared v [Declare v, Read v i]"
  unfolding first_declared_def by (rule exI[of _ "[]"]) simp

lemma trace_first_declared:
  "emission_trace t declared = (D, evs) \<Longrightarrow> v \<notin> declared \<Longrightarrow> v \<in> set (item_names t) \<Longrightarrow>
     first_declared v evs"
  "emission_trace_items ts declared = (D, evs) \<Longrightarrow> v \<notin> declared \<Longrightarrow>
     v \<in> set (concat (map item_names ts)) \<Longrightarrow> first_declared v evs"
proof (induction t declared and ts declared arbitrary: D evs and D evs
       rule: emission_trace_emission_trace_items.induct)
  case (1 name indices declared)
  then show ?case by (auto simp: first_declared_item split: if_splits)
next
  case (2 declared)
  then show ?case by auto
next
  case (3 items declared)
  then show ?case by auto
next
  case (4 name sz body declared)
  obtain D1 e1 where body: "emission_trace body declared = (D1, e1)"
    by (cases "emission_trace body declared") auto
  with "4.prems" have evs: "evs = [Open name sz] @ (e1 @ [Close])" by auto
  from "4.IH"[OF body] "4.prems" have "first_declared v e1" by simp
  then have "first_declared v (e1 @ [Close])"
    by (rule first_declared_appendL) simp
  then show ?case unfolding evs
    by (rule first_declared_appendR) simp_all
next
  case (5 declared)
  then show ?case by auto
next
  case (6 item items declared)
  obtain D1 e1 where item: "emission_trace item declared = (D1, e1)"
    by (cases "emission_trace item declared") auto
  obtain D2 e2 where rest: "emission_trace_items items D1 = (D2, e2)"
    by (cases "emission_trace_items items D1") auto
  from "6.prems" item rest have evs: "evs = e1 @ e2" by auto
  note d1 = trace_declared(1)[OF item]
  note d2 = trace_declared(2)[OF rest]
  show ?case
  proof (cases "v \<in> set (item_names item)")
    case True
    from "6.IH"(1)[OF item "6.prems"(2) True] have "first_declared v e1" .
    moreover from d1 d2 True have "Declare v \<notin> set e2" by auto
    ultimately show ?thesis unfolding evs by (rule first_declared_appendL)
  next
    case False
    with "6.prems" have v: "v \<in> set (concat (map item_names items))" by auto
    from d1 False "6.prems"(2) have "v \<notin> D1" by auto
    from "6.IH"(2)[OF item[symmetric] rest this v] have "first_declared v e2" .
    moreover from d1 False have "Declare v \<notin> set e1" "\<forall>j. Read v j \<notin> set e1" by auto
    ultimately show ?thesis unfolding evs by (rule first_declared_appendR)
  qed
qed

lemma first_declared_nth:
  assumes "first_declared v evs"
  shows "\<exists>k idx. Suc k < length evs \<and> evs ! k = Declare v \<and> evs ! Suc k = Read v idx \<and>
           (\<forall>j<length evs. (evs ! j = Declare v) = (j = k)) \<and>
           (\<forall>j<k. \<forall>idx'. evs ! j \<noteq> Read v idx')"
proof -
  from assms obtain pre i post where
    evs: "evs = pre @ Declare v # Read v i # post" and
    pre: "Declare v \<notin> set pre" and post: "Declare v \<notin> set post" and
    reads: "\<forall>j. Read v j \<notin> set pre"
    unfolding first_declared_def by blast
  let ?k = "length pre"
  have a: "Suc ?k < length evs" by (simp add: evs)
  have b: "evs ! ?k = Declare v" by (simp add: evs)
  have c: "evs ! Suc ?k = Read v i" by (simp add: evs nth_append)
  have d: "(evs ! j = Declare v) = (j = ?k)" if "j < length evs" for j
  proof (cases "j < ?k")
    case True
    then have "evs ! j \<in> set pre" by (simp add: evs nth_append)
    with pre True show ?thesis by auto
  next
    case False
    show ?thesis
    proof (cases "j = ?k")
      case True
      with b show ?thesis by simp
    next
      case ne: False
      show ?thesis
      proof (cases "j = Suc ?k")
        case True
        with c show ?thesis by simp
      next
        case False
        with ne \<open>\<not> j < ?k\<close> have j: "j = Suc (Suc ?k) + (j - Suc (Suc ?k))" by arith
        from that have "j < Suc (Suc (?k + length post))" by (simp add: evs)
        with j have "j - Suc (Suc ?k) < length post" by arith
        then have "post ! (j - Suc (Suc ?k)) \<in> set post" by simp
        moreover have "evs ! j = post ! (j - Suc (Suc ?k))"
          by (subst j) (simp add: evs nth_append)
        ultimately show ?thesis using post ne by auto
      qed
    qed
  qed
  have e: "evs ! j \<noteq> Read v idx'" if "j < ?k" for j idx'
  proof -
    from that have "evs ! j \<in> set pre" by (simp add: evs nth_append)
    with reads show ?thesis by auto
  qed
  from a b c d e show ?thesis by blast
qed

section \<open>The claims\<close>

text \<open>
  C1. With \<open>scanner = "cin"\<close> the traversal should emit the stream extraction
  \<open>cin >> n;\<close> for the item \<open>n\<close>. The scalar-read emitter \<open>read_int\<close> does
  select it, but the traversal does not call the emitter: the item's read statement is
  the formatted scan whatever the option holds.
\<close>

theorem read_input_scanner_cin_emits_scanf:
  \<open>read_int ''n'' \<lparr>input = ItemNode ''n'' [], config = [''scanner'' \<mapsto> PyStr ''cin'']\<rparr>
     = Inr ''cin >> n;'' \<and>
   read_input \<lparr>input = ItemNode ''n'' [], config = [''scanner'' \<mapsto> PyStr ''cin'']\<rparr> 1
     = Inr (''    int n;'' @ [CHR 0x0A] @ ''    scanf("%d", &n);'')\<close>
  by (simp add: read_input_def list_used_items_def indent_eval declare_variable_def
      indexed_path_def scanf_stmt_def read_int_def dict_get_def get_std_def)

text \<open>
  C2. The nest counter should start at the start depth passed in. The indenter
  overwrites it with 1: called with start depth 3 (or 0) on the single line \<open>x\<close>,
  it prefixes one indent unit.
\<close>

theorem join_with_indent_ignores_start_depth:
  "join_with_indent ([''x''], None) 3 \<lparr>input = NewlineNode, config = Map.empty\<rparr> = Inr ''    x'' \<and>
   join_with_indent ([''x''], None) 0 \<lparr>input = NewlineNode, config = Map.empty\<rparr> = Inr ''    x''"
  by (simp add: indent_eval)

text \<open>
  C3. With \<open>printer = "printf"\<close> the output block should be the formatted print of
  the result variable. The emitter compares the option with \<open>"scanf"\<close>, so
  \<open>"printf"\<close> reaches the failing assertion, while \<open>"scanf"\<close> and an unset option
  give the formatted print.
\<close>

theorem write_output_printf_fails:
  \<open>write_output \<lparr>input = NewlineNode, config = [''printer'' \<mapsto> PyStr ''printf'']\<rparr> 1
     = Inl AssertionError \<and>
   write_output \<lparr>input = NewlineNode, config = [''printer'' \<mapsto> PyStr ''scanf'']\<rparr> 1
     = Inr (''    printf("%d'' @ [CHR 0x5C] @ ''n", &ans);'') \<and>
   write_output \<lparr>input = NewlineNode, config = Map.empty\<rparr> 1
     = Inr (''    printf("%d'' @ [CHR 0x5C] @ ''n", &ans);'')\<close>
  by (simp add: write_output_def write_int_def dict_get_def printf_stmt_def indent_eval)

text \<open>
  C4. A \<open>scanner\<close> that is neither a builtin token nor callable (here the integer
  42) should make the input-reading pass fail. The scalar-read emitter fails on it,
  but the traversal never consults the option, so the pass returns the whole block.
\<close>

theorem read_input_invalid_scanner_succeeds:
  \<open>read_int ''n'' \<lparr>input = ItemNode ''n'' [], config = [''scanner'' \<mapsto> PyInt 42]\<rparr>
     = Inl AssertionError \<and>
   read_input \<lparr>input = ItemNode ''n'' [], config = [''scanner'' \<mapsto> PyInt 42]\<rparr> 1
     = Inr (''    int n;'' @ [CHR 0x0A] @ ''    scanf("%d", &n);'')\<close>
  by (simp add: read_input_def list_used_items_def indent_eval declare_variable_def
      indexed_path_def scanf_stmt_def read_int_def dict_get_def get_std_def)

text \<open>
  C5. Declare-once. When the traversal of a tree from the empty set of declared
  names ends normally with the lines \<open>ls\<close>, and \<open>v\<close> names at least one item
  of the tree, then there is exactly one position \<open>k\<close> whose line is yielded by the
  declaration statement for \<open>v\<close>. That line is the declaration of \<open>v\<close> with the
  dimensions the table holds for it; the next line is a read of \<open>v\<close>, and no read
  of \<open>v\<close> is yielded before position \<open>k\<close>: the declaration stands at the first
  item of \<open>v\<close> in traversal order. The lines are, position by position, the texts
  of the yields of the trace.
\<close>

theorem declare_once:
  assumes run: "read_input_dfs t {} dims d = (D, ls, None)"
    and v: "v \<in> set (item_names t)"
  shows "\<exists>k ds idx.
           Suc k < length ls \<and> map_of dims v = Some ds \<and>
           ls ! k = declare_variable v ds d \<and>
           ls ! Suc k = scanf_stmt (indexed_path v idx) \<and>
           length (snd (emission_trace t {})) = length ls \<and>
           (\<forall>j<length ls. render dims d (snd (emission_trace t {}) ! j) = Inr (ls ! j)) \<and>
           (\<forall>j<length ls. (snd (emission_trace t {}) ! j = Declare v) = (j = k)) \<and>
           snd (emission_trace t {}) ! Suc k = Read v idx \<and>
           (\<forall>j<k. \<forall>idx'. snd (emission_trace t {}) ! j \<noteq> Read v idx')"
proof -
  let ?evs = "snd (emission_trace t {})"
  from traversal_trace(1)[OF run]
  have m: "map (render dims d) ?evs = map Inr ls" by simp
  then have len: "length ?evs = length ls"
    by (metis length_map)
  have nth: "render dims d (?evs ! j) = Inr (ls ! j)" if "j < length ls" for j
  proof -
    from that len have "map (render dims d) ?evs ! j = render dims d (?evs ! j)" by simp
    moreover from that have "map Inr ls ! j = (Inr (ls ! j) :: error + string)" by simp
    ultimately show ?thesis using m by simp
  qed
  have "emission_trace t {} = (fst (emission_trace t {}), ?evs)" by simp
  from trace_first_declared(1)[OF this _ v] have "first_declared v ?evs" by simp
  from first_declared_nth[OF this] obtain k idx where
    k: "Suc k < length ?evs" "?evs ! k = Declare v" "?evs ! Suc k = Read v idx"
      "\<forall>j<length ?evs. (?evs ! j = Declare v) = (j = k)"
      "\<forall>j<k. \<forall>idx'. ?evs ! j \<noteq> Read v idx'"
    by blast
  from k(1) len have k1: "k < length ls" "Suc k < length ls" by simp_all
  from nth[OF k1(1)] k(2) obtain ds where
    ds: "map_of dims v = Some ds" "ls ! k = declare_variable v ds d"
    by (auto split: option.splits)
  from nth[OF k1(2)] k(3) have rd: "ls ! Suc k = scanf_stmt (indexed_path v idx)"
    by simp
  from k1(2) ds rd len nth k(3,4,5) show ?thesis
    by (intro exI[of _ k] exI[of _ ds] exI[of _ idx]) simp
qed

text \<open>
  The tree \<open>n\<close>, newline, loop \<open>i < n\<close> over \<open>a[i]\<close> and \<open>n\<close> again, under the
  default style: the traversal ends normally and \<open>n\<close>, read twice, is declared once.
\<close>

theorem declare_once_witness:
  "\<exists>D ls.
     read_input_dfs
       (SequenceNode [ItemNode ''n'' [], NewlineNode,
          LoopNode ''i'' ''n'' (SequenceNode [ItemNode ''a'' [''i''], ItemNode ''n'' []])]) {}
       (list_used_items
         (SequenceNode [ItemNode ''n'' [], NewlineNode,
            LoopNode ''i'' ''n'' (SequenceNode [ItemNode ''a'' [''i''], ItemNode ''n'' []])]))
       \<lparr>input = NewlineNode, config = Map.empty\<rparr> = (D, ls, None) \<and>
     length ls = 7 \<and>
     ''n'' \<in> set (item_names
       (SequenceNode [ItemNode ''n'' [], NewlineNode,
          LoopNode ''i'' ''n'' (SequenceNode [ItemNode ''a'' [''i''], ItemNode ''n'' []])])) \<and>
     (\<exists>k ds idx.
        Suc k < length ls \<and>
        ls ! k = declare_variable ''n'' ds \<lparr>input = NewlineNode, config = Map.empty\<rparr> \<and>
        ls ! Suc k = scanf_stmt (indexed_path ''n'' idx))"
proof -
  let ?t = "SequenceNode [ItemNode ''n'' [], NewlineNode,
          LoopNode ''i'' ''n'' (SequenceNode [ItemNode ''a'' [''i''], ItemNode ''n'' []])]"
  let ?d = "\<lparr>input = NewlineNode, config = Map.empty\<rparr>"
  let ?r = "read_input_dfs ?t {} (list_used_items ?t) ?d"
  have e: "snd (snd ?r) = None" "length (fst (snd ?r)) = 7"
    by (simp_all add: list_used_items_def declare_loop_def dict_get_def)
  then have h1: "?r = (fst ?r, fst (snd ?r), None)"
    by (metis prod.collapse)
  have h2: "''n'' \<in> set (item_names ?t)" by simp
  from declare_once[OF h1 h2] have "\<exists>k ds idx.
        Suc k < length (fst (snd ?r)) \<and>
        fst (snd ?r) ! k = declare_variable ''n'' ds ?d \<and>
        fst (snd ?r) ! Suc k = scanf_stmt (indexed_path ''n'' idx)"
    by blast
  with h1 e(2) h2 show ?thesis by blast
qed

text \<open>
  C6. The loop-header emitter selects by the kind of \<open>rep_macro\<close>: unset (or
  \<open>None\<close>) gives the counted loop from 0 to the size, exclusive; a string \<open>M\<close>
  gives the macro invocation, emitted as \<open>M (v, s)\<close> with nothing after the closing
  parenthesis; a callable gives its result on \<open>(v, s)\<close>. Any other kind of value
  reaches the failing assertion, so there are exactly three strategies.
\<close>

theorem declare_loop_strategies:
  "declare_loop v s (d\<lparr>config := (config d)(''rep_macro'' := None)\<rparr>)
     = Inr (''for (int '' @ v @ '' = 0; '' @ v @ '' < '' @ s @ ''; ++'' @ v @ '')'') \<and>
   declare_loop v s (d\<lparr>config := (config d)(''rep_macro'' \<mapsto> PyNone)\<rparr>)
     = Inr (''for (int '' @ v @ '' = 0; '' @ v @ '' < '' @ s @ ''; ++'' @ v @ '')'') \<and>
   declare_loop v s (d\<lparr>config := (config d)(''rep_macro'' \<mapsto> PyStr M)\<rparr>)
     = Inr (M @ '' ('' @ v @ '', '' @ s @ '')'') \<and>
   declare_loop v s (d\<lparr>config := (config d)(''rep_macro'' \<mapsto> PyCallable hook)\<rparr>)
     = hook [v, s] \<and>
   declare_loop v s (d\<lparr>config := (config d)(''rep_macro'' \<mapsto> PyBool b)\<rparr>)
     = Inl AssertionError \<and>
   declare_loop v s (d\<lparr>config := (config d)(''rep_macro'' \<mapsto> PyInt i)\<rparr>)
     = Inl AssertionError"
  by (simp add: declare_loop_def dict_get_def)

text \<open>
  C7. The parameter types are one fragment for each entry of the dimension table, in
  the table's order, joined by a comma and a space. An entry with no dimension gives
  the scalar type and the name; an entry with \<open>d \<ge> 1\<close> dimensions gives \<open>const\<close>,
  the container type nested \<open>d\<close> levels deep, \<open>&\<close> and the name. The table holds
  each item name once, in order of first appearance in the tree.
\<close>

theorem arguments_types_fragments:
  "arguments_types d =
     str_join '', ''
       (map (\<lambda>(name, dims).
               (if dims = [] then ''int''
                else ''const '' @ vector_type (get_std d) (length dims) @ '' &'') @ '' '' @ name)
          (list_used_items (input d))) \<and>
   map fst (list_used_items (input d)) = rev (remdups (rev (item_names (input d))))"
proof -
  have "arguments_types_decl name dims d =
          (if dims = [] then ''int''
           else ''const '' @ vector_type (get_std d) (length dims) @ '' &'') @ '' '' @ name"
    for name dims
    by (simp add: arguments_types_decl_def arguments_types_loop_rev Let_def)
  then show ?thesis
    by (simp add: arguments_types_def list_used_items_order)
qed

text \<open>
  C8, as amended. Under a style whose loop-header text never begins with the closing
  marker, the lines of any subtree keep the nest counter at or above the value \<open>n\<close>
  it has before them: before each line, when the line is prefixed, and after every
  prefix of the lines. When the traversal of the subtree ends normally the counter
  is \<open>n\<close> again after its lines. The indenter starts at 1, so the counter never goes
  below 1 on the lines of a whole tree.
\<close>

theorem indentation_balance:
  assumes "loop_headers_open d"
    and "read_input_dfs t declared dims d = (D, ls, r)"
  shows "nest_never_below n n ls \<and>
         (\<forall>k. map_sum id fst (indent_loop (PyStr u) n buf (take k ls))
                 = Inr (nest_after n (take k ls)) \<and>
               n \<le> nest_after n (take k ls)) \<and>
         (r = None \<longrightarrow> map_sum id fst (indent_loop (PyStr u) n buf ls) = Inr n)"
proof -
  from traversal_balance(1)[OF assms(2) assms(1), of n]
  have b: "nest_never_below n n ls" and a: "r = None \<longrightarrow> nest_after n ls = n"
    by simp_all
  from b have "n \<le> nest_after n (take k ls)" for k
    by (rule nest_never_below_take)
  with a b show ?thesis
    by (simp add: indent_loop_counter)
qed

text \<open>The loop \<open>i < n\<close> over \<open>a[i]\<close> under the default style, indented from 1.\<close>

theorem indentation_balance_witness:
  "loop_headers_open \<lparr>input = NewlineNode, config = Map.empty\<rparr> \<and>
   (\<exists>D ls.
      read_input_dfs (LoopNode ''i'' ''n'' (ItemNode ''a'' [''i''])) {} [(''a'', [''n''])]
        \<lparr>input = NewlineNode, config = Map.empty\<rparr> = (D, ls, None) \<and>
      length ls = 4 \<and>
      nest_never_below 1 1 ls \<and>
      map_sum id fst (indent_loop (PyStr ''    '') 1 [] ls) = Inr 1)"
proof -
  let ?d = "\<lparr>input = NewlineNode, config = Map.empty\<rparr>"
  let ?r = "read_input_dfs (LoopNode ''i'' ''n'' (ItemNode ''a'' [''i''])) {} [(''a'', [''n''])] ?d"
  have h1: "loop_headers_open ?d"
    by (simp add: loop_headers_open_def declare_loop_def dict_get_def)
  have e: "snd (snd ?r) = None" "length (fst (snd ?r)) = 4"
    by (simp_all add: declare_loop_def dict_get_def)
  then have h2: "?r = (fst ?r, fst (snd ?r), None)"
    by (metis prod.collapse)
  from indentation_balance[OF h1 h2, of 1 "''    ''" "[]"]
  have "nest_never_below 1 1 (fst (snd ?r)) \<and>
        map_sum id fst (indent_loop (PyStr ''    '') 1 [] (fst (snd ?r))) = Inr 1"
    by simp
  with h1 h2 e(2) show ?thesis by blast
qed

text \<open>
  C8 as stated fails when a loop-header text begins with the closing marker, as
  with the macro name \<open>}\<close>: the header line \<open>} (i, n) {\<close> decrements the counter
  before it increments it, so after the lines of one loop the counter is 0, not the 1
  it was before them, and after the lines of two loops in sequence it is below zero.
\<close>

theorem indentation_balance_counterexample:
  \<open>fst (snd (read_input_dfs (LoopNode ''i'' ''n'' (ItemNode ''a'' [''i''])) {} [(''a'', [''n''])]
      \<lparr>input = NewlineNode, config = [''rep_macro'' \<mapsto> PyStr ''}'']\<rparr>))
     = [''} (i, n) {'', ''vector<int> a(n, int());'', ''scanf("%d", &a[i]);'', ''}''] \<and>
   map_sum id fst
     (indent_loop (PyStr ''    '') 1 []
        [''} (i, n) {'', ''vector<int> a(n, int());'', ''scanf("%d", &a[i]);'', ''}''])
     = Inr 0 \<and>
   map_sum id fst
     (indent_loop (PyStr ''    '') 1 []
        (fst (snd (read_input_dfs
           (SequenceNode [LoopNode ''i'' ''n'' (ItemNode ''a'' [''i'']),
                          LoopNode ''i'' ''n'' (ItemNode ''a'' [''i''])]) {} [(''a'', [''n''])]
           \<lparr>input = NewlineNode, config = [''rep_macro'' \<mapsto> PyStr ''}'']\<rparr>))))
     = Inr (- 1)\<close>
  by (simp add: declare_loop_def dict_get_def declare_variable_def get_std_def
      dict_get_default_def scanf_stmt_def indexed_path_def endswith_def str_mul_def)

text \<open>
  C9. A failed input analysis should make the loop skip generation for the template,
  and a failure of the generator should be caught and logged and the loop should go
  on. The loop calls the generator whether or not the analysis gave a node, with two
  positional arguments where the generator takes one: the call raises
  \<^verbatim>\<open>TypeError\<close>, which the \<^verbatim>\<open>except NotImplementedError\<close> clause does not
  catch, so the exception leaves the loop at the first template and no file is
  written.
\<close>

theorem prepare_problem_raises_type_error:
  "prepare_problem_loop ((dest, template) # rest) (Inl AnalyzerError) (Inr out) lookup w
     = (w\<lparr>log := log w @ [InputAnalyzerFailed AnalyzerError]\<rparr>, Some TypeError) \<and>
   prepare_problem_loop ((dest, template) # rest) (Inr inp) (Inr out) lookup w
     = (w, Some TypeError)"
  by (simp add: analyze_def run_def)

text \<open>
  C10. With \<open>using_namespace_std\<close> absent or a boolean, the qualifier \<open>p\<close> is
  \<open>std::\<close> exactly when the option is present and false, and empty otherwise. It
  stands in front of \<open>cin\<close> in the stream read, of \<open>cout\<close> and \<open>endl\<close> in the
  stream write, and of every container name in a declaration and in a parameter type.
\<close>

theorem std_qualifier:
  "(let c = (config d)(''using_namespace_std'' := map_option PyBool ob);
        p = (if ob = Some False then ''std::'' else '''')
    in get_std (d\<lparr>config := c\<rparr>) = p
     \<and> read_int var (d\<lparr>config := c(''scanner'' \<mapsto> PyStr ''cin'')\<rparr>)
         = Inr (p @ ''cin >> '' @ var @ '';'')
     \<and> read_int var (d\<lparr>config := c(''scanner'' \<mapsto> PyStr ''std::cin'')\<rparr>)
         = Inr (p @ ''cin >> '' @ var @ '';'')
     \<and> write_int var (d\<lparr>config := c(''printer'' \<mapsto> PyStr ''cout'')\<rparr>)
         = Inr (p @ ''cout << '' @ var @ '' << '' @ p @ ''endl;'')
     \<and> write_int var (d\<lparr>config := c(''printer'' \<mapsto> PyStr ''std::cout'')\<rparr>)
         = Inr (p @ ''cout << '' @ var @ '' << '' @ p @ ''endl;'')
     \<and> declare_variable name dims (d\<lparr>config := c\<rparr>)
         = vector_type p (length dims) @ '' '' @ name @ vector_ctor p dims @ '';''
     \<and> arguments_types_decl name dims (d\<lparr>config := c\<rparr>)
         = (if dims = [] then ''int'' else ''const '' @ vector_type p (length dims) @ '' &'')
           @ '' '' @ name)"
proof -
  let ?c = "(config d)(''using_namespace_std'' := map_option PyBool ob)"
  let ?p = "if ob = Some False then ''std::'' else ''''"
  have g: "get_std (d\<lparr>config := ?c\<rparr>) = ?p"
    by (rule get_std_bool)
  have r1: "read_int var (d\<lparr>config := ?c(''scanner'' \<mapsto> PyStr ''cin'')\<rparr>)
         = Inr (?p @ ''cin >> '' @ var @ '';'')"
    unfolding g[symmetric] by (simp add: read_int_def get_std_upd dict_get_def)
  have r2: "read_int var (d\<lparr>config := ?c(''scanner'' \<mapsto> PyStr ''std::cin'')\<rparr>)
         = Inr (?p @ ''cin >> '' @ var @ '';'')"
    unfolding g[symmetric] by (simp add: read_int_def get_std_upd dict_get_def)
  have w1: "write_int var (d\<lparr>config := ?c(''printer'' \<mapsto> PyStr ''cout'')\<rparr>)
         = Inr (?p @ ''cout << '' @ var @ '' << '' @ ?p @ ''endl;'')"
    unfolding g[symmetric] by (simp add: write_int_def get_std_upd dict_get_def)
  have w2: "write_int var (d\<lparr>config := ?c(''printer'' \<mapsto> PyStr ''std::cout'')\<rparr>)
         = Inr (?p @ ''cout << '' @ var @ '' << '' @ ?p @ ''endl;'')"
    unfolding g[symmetric] by (simp add: write_int_def get_std_upd dict_get_def)
  have dv: "declare_variable name dims (d\<lparr>config := ?c\<rparr>)
         = vector_type ?p (length dims) @ '' '' @ name @ vector_ctor ?p dims @ '';''"
    by (simp only: declare_variable_text g)
  have at: "arguments_types_decl name dims (d\<lparr>config := ?c\<rparr>)
         = (if dims = [] then ''int'' else ''const '' @ vector_type ?p (length dims) @ '' &'')
           @ '' '' @ name"
    by (simp only: arguments_types_decl_def arguments_types_loop_rev g Let_def) simp
  show ?thesis
    unfolding Let_def by (intro conjI g r1 r2 w1 w2 dv at)
qed

end
